theory Spec2Isabelle
  imports Main
begin

unbundle bit_operations_syntax

section \<open>JavaScript values and primitive operations\<close>

text \<open>
  The codec of \<^verbatim>\<open>PocketPodEditor.jsx\<close> works on arrays of numbers. An array of
  integers is an \<open>int list\<close>. Reading an array out of range does not throw in JavaScript,
  it yields \<^verbatim>\<open>undefined\<close>; \<open>jsval\<close> makes that value (and \<^verbatim>\<open>null\<close>) explicit
  wherever the source may read it.
\<close>

datatype jsval = Undefined | Null | Num int

text \<open>\<^verbatim>\<open>data[i]\<close> for a non-negative index.\<close>

definition js_index :: "int list \<Rightarrow> nat \<Rightarrow> jsval" where
  "js_index data i = (if i < length data then Num (data ! i) else Undefined)"

text \<open>\<^verbatim>\<open>data.slice(s, e)\<close> for non-negative \<open>s\<close> and \<open>e\<close>: both ends are clamped to
  the length of the array.\<close>

definition js_slice :: "'a list \<Rightarrow> nat \<Rightarrow> nat \<Rightarrow> 'a list" where
  "js_slice data s e = take (e - s) (drop s data)"

text \<open>
  The bitwise operators convert their operands with ToInt32 (the value modulo \<open>2^32\<close>,
  read as two's complement) and give a 32-bit signed result; the shift count is taken
  modulo 32. \<^verbatim>\<open>undefined\<close> and \<^verbatim>\<open>null\<close> convert to 0.
\<close>

definition toInt32 :: "int \<Rightarrow> int" where
  "toInt32 x = signed_take_bit 31 x"

definition js_shl :: "int \<Rightarrow> nat \<Rightarrow> int" where
  "js_shl x k = toInt32 (push_bit (k mod 32) (toInt32 x))"

definition js_sar :: "int \<Rightarrow> nat \<Rightarrow> int" where
  "js_sar x k = drop_bit (k mod 32) (toInt32 x)"

definition js_or :: "int \<Rightarrow> int \<Rightarrow> int" where
  "js_or a b = toInt32 a OR toInt32 b"

definition js_and :: "int \<Rightarrow> int \<Rightarrow> int" where
  "js_and a b = toInt32 a AND toInt32 b"

fun js_toInt32 :: "jsval \<Rightarrow> int" where
  "js_toInt32 Undefined = 0"
| "js_toInt32 Null = 0"
| "js_toInt32 (Num n) = toInt32 n"

text \<open>\<^verbatim>\<open>v >= n\<close>: \<^verbatim>\<open>undefined\<close> converts to NaN, which compares false; \<^verbatim>\<open>null\<close>
  converts to 0.\<close>

fun js_ge :: "jsval \<Rightarrow> int \<Rightarrow> bool" where
  "js_ge Undefined n = False"
| "js_ge Null n = (0 \<ge> n)"
| "js_ge (Num v) n = (v \<ge> n)"

text \<open>
  A JavaScript string is a sequence of UTF-16 code units. \<^verbatim>\<open>String.fromCharCode(b)\<close>
  is the one code unit \<open>b mod 2^16\<close>; \<^verbatim>\<open>s.charCodeAt(i)\<close> reads a code unit back.
\<close>

type_synonym jsstring = "nat list"

definition fromCharCode :: "int \<Rightarrow> nat" where
  "fromCharCode b = nat (b mod 65536)"

definition js_string :: "string \<Rightarrow> jsstring" where
  "js_string s = map of_char s"

text \<open>
  \<^verbatim>\<open>String.prototype.trim\<close> removes the white space and line terminator code units of
  ECMAScript from both ends of the string.
\<close>

definition isWhiteSpace :: "nat \<Rightarrow> bool" where
  "isWhiteSpace c \<longleftrightarrow>
     c = 9 \<or> c = 10 \<or> c = 11 \<or> c = 12 \<or> c = 13 \<or> c = 32 \<or> c = 160 \<or> c = 5760
     \<or> (8192 \<le> c \<and> c \<le> 8202) \<or> c = 8232 \<or> c = 8233 \<or> c = 8239 \<or> c = 8287
     \<or> c = 12288 \<or> c = 65279"

definition js_trimStart :: "jsstring \<Rightarrow> jsstring" where
  "js_trimStart s = dropWhile isWhiteSpace s"

definition js_trimEnd :: "jsstring \<Rightarrow> jsstring" where
  "js_trimEnd s = rev (dropWhile isWhiteSpace (rev s))"

definition js_trim :: "jsstring \<Rightarrow> jsstring" where
  "js_trim s = js_trimEnd (js_trimStart s)"

section \<open>Protocol constants\<close>

definition LINE6_MANUFACTURER_ID :: "int list" where
  "LINE6_MANUFACTURER_ID = [0x00, 0x01, 0x0c]"

definition POCKET_POD_DEVICE_ID :: int where
  "POCKET_POD_DEVICE_ID = 0x01"

definition SYSEX_START :: int where
  "SYSEX_START = 0xf0"

definition SYSEX_END :: int where
  "SYSEX_END = 0xf7"

definition OPCODE_PATCH_DUMP :: int where
  "OPCODE_PATCH_DUMP = 0x01"

text \<open>
  \<^verbatim>\<open>MIDI_CC_MAP\<close> is an object literal; \<^verbatim>\<open>Object.entries\<close> enumerates its (string)
  keys in the order they are written, so the table is an association list in that order.
\<close>

record descriptor =
  cc :: int
  name_cc :: string
  min_cc :: int
  max_cc :: int

definition MIDI_CC_MAP :: "(string \<times> descriptor) list" where
  "MIDI_CC_MAP = [
    (''ampModel'', \<lparr>cc = 12, name_cc = ''Amp Model'', min_cc = 0, max_cc = 31\<rparr>),
    (''drive'', \<lparr>cc = 13, name_cc = ''Drive'', min_cc = 0, max_cc = 127\<rparr>),
    (''bass'', \<lparr>cc = 14, name_cc = ''Bass'', min_cc = 0, max_cc = 127\<rparr>),
    (''mid'', \<lparr>cc = 15, name_cc = ''Mid'', min_cc = 0, max_cc = 127\<rparr>),
    (''treble'', \<lparr>cc = 16, name_cc = ''Treble'', min_cc = 0, max_cc = 127\<rparr>),
    (''chanVol'', \<lparr>cc = 17, name_cc = ''Chan Vol'', min_cc = 0, max_cc = 127\<rparr>),
    (''drive2'', \<lparr>cc = 20, name_cc = ''Drive 2'', min_cc = 0, max_cc = 127\<rparr>),
    (''presence'', \<lparr>cc = 21, name_cc = ''Presence'', min_cc = 0, max_cc = 127\<rparr>),
    (''reverb_level'', \<lparr>cc = 18, name_cc = ''Reverb Level'', min_cc = 0, max_cc = 127\<rparr>),
    (''reverb_type'', \<lparr>cc = 37, name_cc = ''Reverb Type'', min_cc = 0, max_cc = 1\<rparr>),
    (''reverb_decay'', \<lparr>cc = 38, name_cc = ''Reverb Decay'', min_cc = 0, max_cc = 127\<rparr>),
    (''reverb_tone'', \<lparr>cc = 39, name_cc = ''Reverb Tone'', min_cc = 0, max_cc = 127\<rparr>),
    (''reverb_diffusion'', \<lparr>cc = 40, name_cc = ''Reverb Diffusion'', min_cc = 0, max_cc = 127\<rparr>),
    (''reverb_density'', \<lparr>cc = 41, name_cc = ''Reverb Density'', min_cc = 0, max_cc = 127\<rparr>),
    (''effect'', \<lparr>cc = 19, name_cc = ''Effect Type'', min_cc = 0, max_cc = 15\<rparr>),
    (''effect_tweak'', \<lparr>cc = 1, name_cc = ''Effect Tweak'', min_cc = 0, max_cc = 127\<rparr>),
    (''effect_speed'', \<lparr>cc = 51, name_cc = ''Effect Speed'', min_cc = 0, max_cc = 127\<rparr>),
    (''effect_depth'', \<lparr>cc = 52, name_cc = ''Effect Depth'', min_cc = 0, max_cc = 127\<rparr>),
    (''effect_feedback'', \<lparr>cc = 53, name_cc = ''Effect Feedback'', min_cc = 0, max_cc = 127\<rparr>),
    (''effect_predelay'', \<lparr>cc = 54, name_cc = ''Effect Pre-Delay'', min_cc = 0, max_cc = 127\<rparr>),
    (''noise_gate'', \<lparr>cc = 23, name_cc = ''Noise Gate Thresh'', min_cc = 0, max_cc = 127\<rparr>),
    (''noise_gate_decay'', \<lparr>cc = 24, name_cc = ''Noise Gate Decay'', min_cc = 0, max_cc = 127\<rparr>),
    (''delay_time'', \<lparr>cc = 30, name_cc = ''Delay Time'', min_cc = 0, max_cc = 127\<rparr>),
    (''delay_time_fine'', \<lparr>cc = 62, name_cc = ''Delay Fine'', min_cc = 0, max_cc = 127\<rparr>),
    (''delay_feedback'', \<lparr>cc = 32, name_cc = ''Delay Feedback'', min_cc = 0, max_cc = 127\<rparr>),
    (''delay_level'', \<lparr>cc = 34, name_cc = ''Delay Level'', min_cc = 0, max_cc = 127\<rparr>),
    (''cabModel'', \<lparr>cc = 71, name_cc = ''Cab Model'', min_cc = 0, max_cc = 15\<rparr>),
    (''air'', \<lparr>cc = 72, name_cc = ''Air'', min_cc = 0, max_cc = 127\<rparr>),
    (''wah_position'', \<lparr>cc = 4, name_cc = ''Wah Position'', min_cc = 0, max_cc = 127\<rparr>),
    (''wah_bottom'', \<lparr>cc = 44, name_cc = ''Wah Bot Freq'', min_cc = 0, max_cc = 127\<rparr>),
    (''wah_top'', \<lparr>cc = 45, name_cc = ''Wah Top Freq'', min_cc = 0, max_cc = 127\<rparr>),
    (''vol_level'', \<lparr>cc = 7, name_cc = ''Volume Level'', min_cc = 0, max_cc = 127\<rparr>),
    (''vol_min'', \<lparr>cc = 46, name_cc = ''Volume Min'', min_cc = 0, max_cc = 127\<rparr>),
    (''vol_position'', \<lparr>cc = 47, name_cc = ''Volume Position'', min_cc = 0, max_cc = 127\<rparr>),
    (''dist_enable'', \<lparr>cc = 25, name_cc = ''Dist Enable'', min_cc = 0, max_cc = 1\<rparr>),
    (''drive_enable'', \<lparr>cc = 26, name_cc = ''Drive Enable'', min_cc = 0, max_cc = 1\<rparr>),
    (''eq_enable'', \<lparr>cc = 27, name_cc = ''EQ Enable'', min_cc = 0, max_cc = 1\<rparr>),
    (''delay_enable'', \<lparr>cc = 28, name_cc = ''Delay Enable'', min_cc = 0, max_cc = 1\<rparr>),
    (''reverb_enable'', \<lparr>cc = 36, name_cc = ''Reverb Enable'', min_cc = 0, max_cc = 1\<rparr>),
    (''noise_gate_enable'', \<lparr>cc = 22, name_cc = ''Noise Gate Enable'', min_cc = 0, max_cc = 1\<rparr>),
    (''mod_fx_enable'', \<lparr>cc = 50, name_cc = ''Mod FX Enable'', min_cc = 0, max_cc = 1\<rparr>),
    (''bright_switch'', \<lparr>cc = 73, name_cc = ''Bright Switch'', min_cc = 0, max_cc = 1\<rparr>)]"

text \<open>
  \<^verbatim>\<open>PATCH_PARAM_MAP\<close>: byte offset in the 71 decoded bytes to the key of the parameter.
  Its keys are integer indices, which \<^verbatim>\<open>Object.entries\<close> enumerates in ascending
  order; the literal is written in that order already.
\<close>

definition PATCH_PARAM_MAP :: "(nat \<times> string) list" where
  "PATCH_PARAM_MAP = [
    (0, ''dist_enable''), (1, ''drive_enable''), (2, ''eq_enable''), (3, ''delay_enable''),
    (4, ''mod_fx_enable''), (5, ''reverb_enable''), (6, ''noise_gate_enable''),
    (7, ''bright_switch''),
    (8, ''ampModel''), (9, ''drive''), (10, ''drive2''), (11, ''bass''), (12, ''mid''),
    (13, ''treble''), (14, ''presence''), (15, ''chanVol''),
    (16, ''noise_gate''), (17, ''noise_gate_decay''),
    (18, ''wah_position''), (19, ''wah_bottom''), (20, ''wah_top''),
    (22, ''vol_level''), (23, ''vol_min''), (24, ''vol_position''),
    (26, ''delay_time''), (27, ''delay_time_fine''), (34, ''delay_feedback''),
    (36, ''delay_level''),
    (38, ''reverb_type''), (39, ''reverb_decay''), (40, ''reverb_tone''),
    (41, ''reverb_diffusion''), (42, ''reverb_density''), (43, ''reverb_level''),
    (44, ''cabModel''), (45, ''air''),
    (46, ''effect''), (47, ''effect_tweak''),
    (48, ''effect_speed''), (50, ''effect_depth''), (52, ''effect_feedback''),
    (53, ''effect_predelay'')]"

section \<open>Nibble codec\<close>

text \<open>
  \<^verbatim>\<open>
  function decodeNibbles(data) {
    const bytes = [];
    for (let i = 0; i < data.length - 1; i += 2) {
      bytes.push((data[i] << 4) | data[i + 1]);
    }
    return bytes;
  }
  \<close>
  The loop guard keeps both reads inside the array.
\<close>

function decodeNibbles_loop :: "int list \<Rightarrow> nat \<Rightarrow> int list \<Rightarrow> int list" where
  "decodeNibbles_loop data i bytes =
     (if int i < int (length data) - 1
      then decodeNibbles_loop data (i + 2) (bytes @ [js_or (js_shl (data ! i) 4) (data ! (i + 1))])
      else bytes)"
  by pat_completeness auto
termination
  by (relation "measure (\<lambda>(data, i, bytes). length data - i)") auto

declare decodeNibbles_loop.simps [simp del]

definition decodeNibbles :: "int list \<Rightarrow> int list" where
  "decodeNibbles data = decodeNibbles_loop data 0 []"

definition decodePatchName :: "int list \<Rightarrow> jsstring" where
  "decodePatchName nibbles =
     (let bytes = decodeNibbles nibbles
      in js_trim (map fromCharCode bytes))"

section \<open>Patch dump parser\<close>

record PatchRecord =
  name :: jsstring
  params :: "string \<rightharpoonup> jsval"
  presetNumber :: jsval
  isEditBuffer :: bool

text \<open>The loop \<^verbatim>\<open>for (const [offset, key] of Object.entries(PATCH_PARAM_MAP))\<close>, which
  stores \<^verbatim>\<open>decoded[Number(offset)]\<close> under \<^verbatim>\<open>key\<close>.\<close>

fun assignParams :: "(nat \<times> string) list \<Rightarrow> int list \<Rightarrow> (string \<rightharpoonup> jsval) \<Rightarrow> (string \<rightharpoonup> jsval)" where
  "assignParams [] decoded ps = ps"
| "assignParams ((offset, key) # rest) decoded ps =
     assignParams rest decoded (ps(key \<mapsto> js_index decoded offset))"

text \<open>\<^verbatim>\<open>null\<close> (the frame is too short) is \<open>None\<close>.\<close>

definition parsePatchDump :: "int list \<Rightarrow> PatchRecord option" where
  "parsePatchDump data =
     (let isEditBuffer = (js_index data 6 = Num 0x01);
          presetNumber = (if isEditBuffer then Null else js_index data 7);
          nibbleStart = (if isEditBuffer then 8 else 9);
          nibblizedPayload = js_slice data nibbleStart (nibbleStart + 142)
      in if length nibblizedPayload < 142 then None
         else
           let decoded = decodeNibbles nibblizedPayload;
               nameBytes = js_slice decoded 55 71;
               name = js_trim (map fromCharCode nameBytes);
               params = assignParams PATCH_PARAM_MAP decoded Map.empty
           in Some \<lparr>name = name, params = params, presetNumber = presetNumber,
                     isEditBuffer = isEditBuffer\<rparr>)"

text \<open>The value of the local variable \<^verbatim>\<open>nibbleStart\<close> of \<^verbatim>\<open>parsePatchDump(data)\<close>: the
  index at which the nibblized payload begins.\<close>

definition nibbleStart :: "int list \<Rightarrow> nat" where
  "nibbleStart data = (if js_index data 6 = Num 0x01 then 8 else 9)"

text \<open>
  The wording of the specification for \<^verbatim>\<open>decodePatchName\<close>, kept apart from the
  definition above for comparison: decode, read each byte as a character code,
  concatenate, and remove trailing white space only.
\<close>

definition decodePatchName_spec :: "int list \<Rightarrow> jsstring" where
  "decodePatchName_spec nibbles = js_trimEnd (map fromCharCode (decodeNibbles nibbles))"

section \<open>The test helper that builds a patch dump\<close>

text \<open>
  \<^verbatim>\<open>buildPatchDump({ isEditBuffer, presetNumber, paramBytes, nameChars })\<close> of
  \<^verbatim>\<open>protocol.test.js\<close>. \<^verbatim>\<open>paramBytes\<close> is \<^verbatim>\<open>null\<close> (\<open>None\<close>) or an array;
  \<^verbatim>\<open>paramBytes || new Array(55).fill(0)\<close> keeps any array, also an empty one. The name
  is split into its code units, padded with spaces to 16 and cut to 16.
\<close>

definition buildPatchDump :: "bool \<Rightarrow> int \<Rightarrow> int list option \<Rightarrow> jsstring \<Rightarrow> int list" where
  "buildPatchDump isEditBuffer' presetNumber' paramBytes nameChars =
     (let header = [SYSEX_START] @ LINE6_MANUFACTURER_ID @ [POCKET_POD_DEVICE_ID, 0x01];
          metaBytes = (if isEditBuffer' then [0x01, 0x00] else [0x00, presetNumber', 0x00]);
          decoded = (case paramBytes of Some p \<Rightarrow> p | None \<Rightarrow> replicate 55 0);
          nameBytes = map int nameChars;
          nameBytes = nameBytes @ replicate (16 - length nameBytes) 0x20;
          full71 = decoded @ js_slice nameBytes 0 16;
          nibblized = concat (map (\<lambda>byte. [js_and (js_sar byte 4) 0x0F, js_and byte 0x0F]) full71)
      in header @ metaBytes @ nibblized @ [SYSEX_END])"

section \<open>Incoming MIDI messages\<close>

text \<open>
  The loop of \<^verbatim>\<open>handleMidiMessage\<close> over \<^verbatim>\<open>Object.entries(MIDI_CC_MAP)\<close>: the first
  descriptor whose \<^verbatim>\<open>cc\<close> is the incoming controller number stores the adjusted value
  under its key and the loop breaks.
\<close>

fun ccLoop :: "(string \<times> descriptor) list \<Rightarrow> jsval \<Rightarrow> jsval \<Rightarrow> (string \<rightharpoonup> jsval) \<Rightarrow> (string \<rightharpoonup> jsval)" where
  "ccLoop [] c val ps = ps"
| "ccLoop ((key, d) # rest) c val ps =
     (if Num (cc d) = c
      then (let adjustedVal = (if max_cc d = 1 then (if js_ge val 64 then Num 1 else Num 0) else val)
            in ps(key \<mapsto> adjustedVal))
      else ccLoop rest c val ps)"

text \<open>
  \<^verbatim>\<open>handleMidiMessage\<close>, as far as it changes the \<^verbatim>\<open>params\<close> state of the editor: an
  edit-buffer patch dump is merged into it (\<^verbatim>\<open>{ ...prev, ...parsed.params }\<close>), and a
  Control Change message goes through the loop above. The other state it sets (log,
  device info, preset list, preset name) does not flow back into \<^verbatim>\<open>params\<close>.
\<close>

definition handleMidiMessage :: "int list \<Rightarrow> (string \<rightharpoonup> jsval) \<Rightarrow> (string \<rightharpoonup> jsval)" where
  "handleMidiMessage data ps =
     (let ps1 =
        (if js_index data 0 = Num SYSEX_START
            \<and> js_index data 1 = Num (LINE6_MANUFACTURER_ID ! 0)
            \<and> js_index data 2 = Num (LINE6_MANUFACTURER_ID ! 1)
            \<and> js_index data 3 = Num (LINE6_MANUFACTURER_ID ! 2)
            \<and> js_index data 4 = Num POCKET_POD_DEVICE_ID
            \<and> js_index data 5 = Num OPCODE_PATCH_DUMP
         then (case parsePatchDump data of
                 Some parsed \<Rightarrow> (if isEditBuffer parsed then ps ++ params parsed else ps)
               | None \<Rightarrow> ps)
         else ps)
      in if js_and (js_toInt32 (js_index data 0)) 0xf0 = 0xb0
         then ccLoop MIDI_CC_MAP (js_index data 1) (js_index data 2) ps1
         else ps1)"

section \<open>Effect category resolver\<close>

datatype EffectCategory =
  Chorus | Flanger | Rotary | Tremolo | Compressor | Swell | Bypass | Delay_only

text \<open>
  Modelled from the spec: \<^verbatim>\<open>EFFECT_CATEGORIES\<close>, the table of controller numbers per
  category and \<^verbatim>\<open>getEffectCC\<close> are exported by a version of the editor that the tests
  import but that is not among the sources. The definitions follow section 4.5 of the
  specification: the fixed lookup from the 16 effect-type indices to the eight categories
  (no category outside 0 to 15), and the table of controller numbers. The specification
  gives no row for the flanger category, which is therefore a parameter.
\<close>

definition EFFECT_CATEGORIES :: "int \<Rightarrow> EffectCategory option" where
  "EFFECT_CATEGORIES i =
     (if i \<in> {0, 4, 8, 12} then Some Chorus
      else if i \<in> {1, 3, 13, 15} then Some Flanger
      else if i = 2 then Some Rotary
      else if i \<in> {5, 9} then Some Tremolo
      else if i \<in> {7, 11} then Some Compressor
      else if i = 14 then Some Swell
      else if i = 10 then Some Bypass
      else if i = 6 then Some Delay_only
      else None)"

fun EFFECT_CC_TABLE :: "(string \<times> int) list \<Rightarrow> EffectCategory \<Rightarrow> (string \<times> int) list" where
  "EFFECT_CC_TABLE fl Chorus =
     [(''effect_speed'', 51), (''effect_depth'', 52), (''effect_feedback'', 53),
      (''effect_predelay'', 54)]"
| "EFFECT_CC_TABLE fl Flanger = fl"
| "EFFECT_CC_TABLE fl Rotary = [(''effect_speed'', 55), (''effect_depth'', 56)]"
| "EFFECT_CC_TABLE fl Tremolo = [(''effect_speed'', 58), (''effect_depth'', 59)]"
| "EFFECT_CC_TABLE fl Compressor = [(''effect_speed'', 42)]"
| "EFFECT_CC_TABLE fl Swell = [(''effect_speed'', 49)]"
| "EFFECT_CC_TABLE fl Bypass = []"
| "EFFECT_CC_TABLE fl Delay_only = []"

definition getEffectCC :: "(string \<times> int) list \<Rightarrow> string \<Rightarrow> int \<Rightarrow> int option" where
  "getEffectCC fl logicalParam effectTypeIndex =
     (case EFFECT_CATEGORIES effectTypeIndex of
        None \<Rightarrow> None
      | Some category \<Rightarrow> map_of (EFFECT_CC_TABLE fl category) logicalParam)"

section \<open>The bitwise operators on nibbles and bytes\<close>

lemma toInt32_id: "- (2 ^ 31) \<le> x \<Longrightarrow> x < 2 ^ 31 \<Longrightarrow> toInt32 x = x"
  unfolding toInt32_def by (simp add: signed_take_bit_int_eq_self)

lemma push4_or:
  fixes hi lo :: int
  assumes "0 \<le> lo" "lo < 16"
  shows "push_bit 4 hi OR lo = hi * 16 + lo"
proof -
  from assms have lo: "take_bit 4 lo = lo" by (simp add: take_bit_int_eq_self)
  have "push_bit 4 hi AND take_bit 4 lo = 0"
    by (rule bit_eqI) (auto simp: bit_simps)
  then have "push_bit 4 hi + take_bit 4 lo = push_bit 4 hi OR take_bit 4 lo"
    by (rule disjunctive_add_eq_or)
  then show ?thesis by (simp add: lo push_bit_eq_mult)
qed

lemma js_or_shl_nibbles:
  assumes "0 \<le> hi" "hi < 2 ^ 27" "0 \<le> lo" "lo < 16"
  shows "js_or (js_shl hi 4) lo = hi * 16 + lo"
proof -
  have hi: "toInt32 hi = hi" using assms by (intro toInt32_id) auto
  have lo: "toInt32 lo = lo" using assms by (intro toInt32_id) auto
  have "toInt32 (hi * 16) = hi * 16" using assms by (intro toInt32_id) auto
  then have "js_shl hi 4 = hi * 16" by (simp add: js_shl_def hi push_bit_eq_mult)
  moreover have "toInt32 (hi * 16) = hi * 16" by fact
  ultimately show ?thesis
    using push4_or [OF assms(3,4), of hi] by (simp add: js_or_def lo push_bit_eq_mult)
qed

lemma take_bit_toInt32: "n \<le> 32 \<Longrightarrow> take_bit n (toInt32 b) = take_bit n b"
  unfolding toInt32_def by (simp add: take_bit_signed_take_bit)

lemma js_and_15_mod: "js_and b 15 = b mod 16"
proof -
  have f: "toInt32 15 = 15" by (intro toInt32_id) auto
  have "js_and b 15 = toInt32 b AND 15" by (simp only: js_and_def f)
  also have "\<dots> = take_bit 4 (toInt32 b)"
    by (simp add: take_bit_eq_mask mask_numeral)
  also have "\<dots> = take_bit 4 b"
    by (rule take_bit_toInt32) simp
  also have "\<dots> = b mod 16"
    by (simp add: take_bit_eq_mod)
  finally show ?thesis .
qed

lemma js_sar_4_and_15: "js_and (js_sar b 4) 15 = b mod 256 div 16"
proof -
  have "js_and (js_sar b 4) 15 = js_sar b 4 mod 16" by (rule js_and_15_mod)
  also have "\<dots> = take_bit 4 (drop_bit 4 (toInt32 b))"
    by (simp add: js_sar_def take_bit_eq_mod)
  also have "\<dots> = drop_bit 4 (take_bit 8 (toInt32 b))"
    by (simp add: take_bit_drop_bit)
  also have "\<dots> = drop_bit 4 (take_bit 8 b)"
    by (simp only: take_bit_toInt32 [of 8, simplified])
  also have "\<dots> = b mod 256 div 16"
    by (simp add: drop_bit_eq_div take_bit_eq_mod)
  finally show ?thesis .
qed

lemma nibble_roundtrip_mod:
  "js_or (js_shl (js_and (js_sar b 4) 15) 4) (js_and b 15) = b mod 256"
proof -
  have "b mod 256 \<le> 255" by simp
  then have "b mod 256 div 16 \<le> 255 div 16" by (rule zdiv_mono1) simp
  then have hi: "0 \<le> b mod 256 div 16" "b mod 256 div 16 < 2 ^ 27"
    by (simp_all add: pos_imp_zdiv_nonneg_iff)
  have lo: "0 \<le> b mod 16" "b mod 16 < 16" by simp_all
  have "js_or (js_shl (b mod 256 div 16) 4) (b mod 16) = b mod 256 div 16 * 16 + b mod 16"
    using hi lo by (rule js_or_shl_nibbles)
  moreover have "b mod 256 mod 16 = b mod 16"
    by (rule mod_mod_cancel) simp
  moreover have "b mod 256 div 16 * 16 + b mod 256 mod 16 = b mod 256"
    by (rule div_mult_mod_eq)
  moreover have "js_or (js_shl (js_and (js_sar b 4) 15) 4) (js_and b 15)
      = js_or (js_shl (b mod 256 div 16) 4) (b mod 16)"
    by (subst js_sar_4_and_15, subst js_and_15_mod, rule refl)
  ultimately show ?thesis
    by simp
qed

section \<open>The nibble decoder\<close>

lemma decodeNibbles_loop_map:
  "decodeNibbles_loop data i bytes =
     bytes @ map (\<lambda>k. js_or (js_shl (data ! (i + 2 * k)) 4) (data ! (i + 2 * k + 1)))
               [0..<(length data - i) div 2]"
proof (induction data i bytes rule: decodeNibbles_loop.induct)
  case (1 data i bytes)
  show ?case
  proof (cases "int i < int (length data) - 1")
    case True
    then have n: "(length data - i) div 2 = Suc ((length data - (i + 2)) div 2)"
      by (simp add: nat_diff_split)
    have upt0: "[0..<Suc m] = 0 # map Suc [0..<m]" for m
      by (simp add: upt_conv_Cons map_Suc_upt del: upt_Suc)
    show ?thesis
      using True 1
      by (subst decodeNibbles_loop.simps) (simp add: n upt0 o_def del: upt_Suc)
  next
    case False
    then have "(length data - i) div 2 = 0" by auto
    with False show ?thesis
      by (subst decodeNibbles_loop.simps) simp
  qed
qed

lemma decodeNibbles_map:
  "decodeNibbles data =
     map (\<lambda>k. js_or (js_shl (data ! (2 * k)) 4) (data ! (2 * k + 1))) [0..<length data div 2]"
  by (simp add: decodeNibbles_def decodeNibbles_loop_map)

lemma length_decodeNibbles: "length (decodeNibbles data) = length data div 2"
  by (simp add: decodeNibbles_map)

lemma nth_decodeNibbles:
  "i < length data div 2 \<Longrightarrow>
   decodeNibbles data ! i = js_or (js_shl (data ! (2 * i)) 4) (data ! (2 * i + 1))"
  by (simp add: decodeNibbles_map)

lemma decodeNibbles_odd_tail:
  assumes "even (length data)"
  shows "decodeNibbles (data @ [x]) = decodeNibbles data"
proof -
  from assms have len: "length (data @ [x]) div 2 = length data div 2"
    by (auto elim!: evenE)
  have "k < length data div 2 \<Longrightarrow> 2 * k < length data \<and> 2 * k + 1 < length data" for k
    by linarith
  then show ?thesis
    unfolding decodeNibbles_map len
    by (intro map_cong refl) (simp add: nth_append)
qed

text \<open>
  C4. \<^verbatim>\<open>decodeNibbles\<close> consumes any integer sequence as consecutive pairs: the empty
  input gives the empty output, the output has half the length of the input (rounded
  down), the byte at position \<open>i\<close> is \<^verbatim>\<open>(hi << 4) | lo\<close> of the pair at positions \<open>2i\<close>
  and \<open>2i+1\<close>, and the last element of an input of odd length changes nothing.
\<close>

theorem decodeNibbles_pairs:
  "decodeNibbles [] = []
   \<and> length (decodeNibbles data) = length data div 2
   \<and> (\<forall>i < length data div 2.
        decodeNibbles data ! i = js_or (js_shl (data ! (2 * i)) 4) (data ! (2 * i + 1)))
   \<and> (odd (length data) \<longrightarrow> decodeNibbles data = decodeNibbles (butlast data))"
proof (intro conjI allI impI)
  show "decodeNibbles [] = []" by (simp add: decodeNibbles_map)
  show "length (decodeNibbles data) = length data div 2" by (rule length_decodeNibbles)
  show "decodeNibbles data ! i = js_or (js_shl (data ! (2 * i)) 4) (data ! (2 * i + 1))"
    if "i < length data div 2" for i using that by (rule nth_decodeNibbles)
  show "decodeNibbles data = decodeNibbles (butlast data)" if "odd (length data)"
  proof -
    from that have ne: "data \<noteq> []" by auto
    with that have "even (length (butlast data))" by simp
    then have "decodeNibbles (butlast data @ [last data]) = decodeNibbles (butlast data)"
      by (rule decodeNibbles_odd_tail)
    with ne show ?thesis by simp
  qed
qed

theorem decodeNibbles_pairs_witness:
  "length (decodeNibbles [0x03, 0x07, 0x0F]) = 1
   \<and> decodeNibbles [0x03, 0x07, 0x0F] ! 0 = 0x37
   \<and> odd (length [0x03, 0x07, 0x0F :: int])
   \<and> decodeNibbles [0x03, 0x07, 0x0F] = decodeNibbles [0x03, 0x07]"
  using decodeNibbles_pairs [of "[0x03, 0x07, 0x0F]"]
  by (auto simp add: js_or_def js_shl_def toInt32_def)

section \<open>The patch dump parser\<close>

lemma dom_assignParams: "dom (assignParams es d ps) = dom ps \<union> snd ` set es"
proof (induction es arbitrary: ps)
  case Nil
  show ?case by simp
next
  case (Cons e es)
  obtain offset k where e: "e = (offset, k)" by (cases e)
  have "dom (assignParams (e # es) d ps) = dom (ps(k \<mapsto> js_index d offset)) \<union> snd ` set es"
    unfolding e assignParams.simps by (rule Cons.IH)
  also have "\<dots> = dom ps \<union> snd ` set (e # es)"
    by (simp add: e)
  finally show ?case .
qed

lemma assignParams_other: "key \<notin> snd ` set es \<Longrightarrow> assignParams es d ps key = ps key"
  by (induction es arbitrary: ps) auto

lemma assignParams_lookup:
  "distinct (map snd es) \<Longrightarrow> (off, key) \<in> set es \<Longrightarrow>
   assignParams es d ps key = Some (js_index d off)"
proof (induction es arbitrary: ps)
  case Nil
  then show ?case by simp
next
  case (Cons e rest)
  obtain offset k where e: "e = (offset, k)" by (cases e)
  show ?case
  proof (cases "(off, key) = (offset, k)")
    case True
    with Cons.prems e have "key \<notin> snd ` set rest" by auto
    with True e show ?thesis by (simp add: assignParams_other)
  next
    case False
    with Cons.prems e have "distinct (map snd rest)" "(off, key) \<in> set rest" by auto
    then have "assignParams rest d (ps(k \<mapsto> js_index d offset)) key = Some (js_index d off)"
      by (rule Cons.IH)
    with e show ?thesis by simp
  qed
qed

lemma PATCH_PARAM_MAP_distinct_keys: "distinct (map snd PATCH_PARAM_MAP)"
  by (simp add: PATCH_PARAM_MAP_def)

lemma PATCH_PARAM_MAP_distinct_offsets: "distinct (map fst PATCH_PARAM_MAP)"
  by (simp add: PATCH_PARAM_MAP_def)

lemma PATCH_PARAM_MAP_offsets: "(off, key) \<in> set PATCH_PARAM_MAP \<Longrightarrow> off < 55"
  by (auto simp add: PATCH_PARAM_MAP_def)

lemma length_PATCH_PARAM_MAP: "length PATCH_PARAM_MAP = 42"
  by (simp add: PATCH_PARAM_MAP_def)

lemma length_js_slice: "length (js_slice xs s e) = min (e - s) (length xs - s)"
  by (simp add: js_slice_def)

lemma parsePatchDump_None_iff:
  "parsePatchDump data = None \<longleftrightarrow> length data < nibbleStart data + 142"
  by (auto simp add: parsePatchDump_def nibbleStart_def Let_def length_js_slice)

lemma parsePatchDump_Some:
  assumes "nibbleStart data + 142 \<le> length data"
  shows "parsePatchDump data =
     Some \<lparr>name = js_trim (map fromCharCode
               (js_slice (decodeNibbles (js_slice data (nibbleStart data) (nibbleStart data + 142))) 55 71)),
           params = assignParams PATCH_PARAM_MAP
               (decodeNibbles (js_slice data (nibbleStart data) (nibbleStart data + 142))) Map.empty,
           presetNumber = (if js_index data 6 = Num 1 then Null else js_index data 7),
           isEditBuffer = (js_index data 6 = Num 1)\<rparr>"
  using assms
  by (auto simp add: parsePatchDump_def nibbleStart_def Let_def length_js_slice)

lemma decoded_payload_nth:
  assumes "nibbleStart data + 142 \<le> length data" "off < 71"
  shows "js_index (decodeNibbles (js_slice data (nibbleStart data) (nibbleStart data + 142))) off
         = Num (js_or (js_shl (data ! (nibbleStart data + 2 * off)) 4)
                      (data ! (nibbleStart data + 2 * off + 1)))"
proof -
  let ?p = "js_slice data (nibbleStart data) (nibbleStart data + 142)"
  have len: "length ?p = 142" using assms by (simp add: length_js_slice)
  then have "off < length ?p div 2" using assms by simp
  then have "decodeNibbles ?p ! off = js_or (js_shl (?p ! (2 * off)) 4) (?p ! (2 * off + 1))"
    by (rule nth_decodeNibbles)
  moreover have "?p ! (2 * off) = data ! (nibbleStart data + 2 * off)"
    using assms by (simp add: js_slice_def)
  moreover have "?p ! (2 * off + 1) = data ! (nibbleStart data + 2 * off + 1)"
    using assms by (simp add: js_slice_def)
  ultimately show ?thesis
    using assms len by (simp add: js_index_def length_decodeNibbles)
qed

text \<open>
  C2. Whenever fewer than 142 elements remain from the start of the nibblized payload
  (index 8 when element 6 is \<open>0x01\<close>, index 9 otherwise), \<^verbatim>\<open>parsePatchDump\<close> returns
  \<^verbatim>\<open>null\<close>. The model is a total function without an error value: on an array every
  operation of the source (indexing, \<^verbatim>\<open>slice\<close>, comparison) is defined, an index out
  of range reading \<^verbatim>\<open>undefined\<close>, so no exception can arise.
\<close>

theorem parsePatchDump_short:
  "length data < nibbleStart data + 142 \<Longrightarrow> parsePatchDump data = None"
  by (simp add: parsePatchDump_None_iff)

theorem parsePatchDump_short_witness:
  "length [0xF0, 0x00, 0x01, 0x0C, 0x01, 0x01, 0x01, 0x00, 0xF7 :: int]
     < nibbleStart [0xF0, 0x00, 0x01, 0x0C, 0x01, 0x01, 0x01, 0x00, 0xF7] + 142
   \<and> parsePatchDump [0xF0, 0x00, 0x01, 0x0C, 0x01, 0x01, 0x01, 0x00, 0xF7] = None"
  using parsePatchDump_short [of "[0xF0, 0x00, 0x01, 0x0C, 0x01, 0x01, 0x01, 0x00, 0xF7]"]
  by (simp add: nibbleStart_def js_index_def)

lemma js_index_header:
  "length hdr = 6 \<Longrightarrow> 6 \<le> i \<Longrightarrow> js_index (hdr @ rest) i = js_index rest (i - 6)"
  by (auto simp add: js_index_def nth_append)

lemma js_slice_header:
  "length hdr = 6 \<Longrightarrow> 6 \<le> s \<Longrightarrow> js_slice (hdr @ rest) s e = js_slice rest (s - 6) (e - 6)"
  by (simp add: js_slice_def)

lemma parsePatchDump_header:
  assumes "length hdr = 6" "length hdr' = 6"
  shows "parsePatchDump (hdr @ rest) = parsePatchDump (hdr' @ rest)"
proof -
  have i6: "js_index (hdr @ rest) 6 = js_index (hdr' @ rest) 6"
    using assms by (simp add: js_index_header)
  have i7: "js_index (hdr @ rest) 7 = js_index (hdr' @ rest) 7"
    using assms by (simp add: js_index_header)
  have s8: "js_slice (hdr @ rest) 8 (8 + 142) = js_slice (hdr' @ rest) 8 (8 + 142)"
    using assms by (simp add: js_slice_header)
  have s9: "js_slice (hdr @ rest) 9 (9 + 142) = js_slice (hdr' @ rest) 9 (9 + 142)"
    using assms by (simp add: js_slice_header)
  show ?thesis
  proof (cases "js_index (hdr' @ rest) 6 = Num 1")
    case True
    then show ?thesis
      unfolding parsePatchDump_def i6 i7 Let_def by (simp only: if_True s8 simp_thms)
  next
    case False
    then show ?thesis
      unfolding parsePatchDump_def i6 i7 Let_def by (simp only: if_False s9 simp_thms)
  qed
qed

text \<open>
  C10. \<^verbatim>\<open>parsePatchDump\<close> never inspects elements 0 to 5 of the frame: two frames that
  differ only there parse alike. A frame of at least 150 elements whose element 6 is
  \<open>0x01\<close> parses to a record, with the edit-buffer layout; element 6 alone chooses the
  layout, any other value giving the stored-preset layout (which needs 151 elements).
\<close>

theorem parsePatchDump_ignores_header:
  "(length hdr = 6 \<and> length hdr' = 6 \<longrightarrow>
      parsePatchDump (hdr @ rest) = parsePatchDump (hdr' @ rest))
   \<and> (150 \<le> length data \<and> data ! 6 = 0x01 \<longrightarrow>
      (\<exists>r. parsePatchDump data = Some r \<and> isEditBuffer r \<and> presetNumber r = Null))
   \<and> (151 \<le> length data \<and> data ! 6 \<noteq> 0x01 \<longrightarrow>
      (\<exists>r. parsePatchDump data = Some r \<and> \<not> isEditBuffer r
         \<and> presetNumber r = Num (data ! 7)))"
proof (intro conjI impI)
  show "parsePatchDump (hdr @ rest) = parsePatchDump (hdr' @ rest)"
    if "length hdr = 6 \<and> length hdr' = 6"
    using that by (simp add: parsePatchDump_header)
  show "\<exists>r. parsePatchDump data = Some r \<and> isEditBuffer r \<and> presetNumber r = Null"
    if "150 \<le> length data \<and> data ! 6 = 0x01"
  proof -
    from that have six: "js_index data 6 = Num 1" by (simp add: js_index_def)
    then have "nibbleStart data = 8" by (simp add: nibbleStart_def)
    with that have "nibbleStart data + 142 \<le> length data" by simp
    from parsePatchDump_Some [OF this] six show ?thesis by simp
  qed
  show "\<exists>r. parsePatchDump data = Some r \<and> \<not> isEditBuffer r \<and> presetNumber r = Num (data ! 7)"
    if "151 \<le> length data \<and> data ! 6 \<noteq> 0x01"
  proof -
    from that have six: "js_index data 6 \<noteq> Num 1" and seven: "js_index data 7 = Num (data ! 7)"
      by (simp_all add: js_index_def)
    then have "nibbleStart data = 9" by (simp add: nibbleStart_def)
    with that have "nibbleStart data + 142 \<le> length data" by simp
    from parsePatchDump_Some [OF this] six seven show ?thesis by simp
  qed
qed

theorem parsePatchDump_ignores_header_witness:
  "length [0xF0, 0x00, 0x01, 0x0C, 0x01, 0x01 :: int] = 6 \<and> length [0x12, 0x34, 0x56, 0x78, 0x9A, 0xBC :: int] = 6
   \<and> parsePatchDump ([0xF0, 0x00, 0x01, 0x0C, 0x01, 0x01] @ 0x01 # 0x00 # replicate 142 0x00)
     = parsePatchDump ([0x12, 0x34, 0x56, 0x78, 0x9A, 0xBC] @ 0x01 # 0x00 # replicate 142 0x00)
   \<and> 150 \<le> length ([0x12, 0x34, 0x56, 0x78, 0x9A, 0xBC] @ 0x01 # 0x00 # replicate 142 (0x00 :: int))
   \<and> ([0x12, 0x34, 0x56, 0x78, 0x9A, 0xBC] @ 0x01 # 0x00 # replicate 142 0x00) ! 6 = (0x01 :: int)
   \<and> parsePatchDump ([0x12, 0x34, 0x56, 0x78, 0x9A, 0xBC] @ 0x01 # 0x00 # replicate 142 0x00) \<noteq> None"
  using parsePatchDump_ignores_header [of "[0xF0, 0x00, 0x01, 0x0C, 0x01, 0x01]"
      "[0x12, 0x34, 0x56, 0x78, 0x9A, 0xBC]" "0x01 # 0x00 # replicate 142 0x00"
      "[0x12, 0x34, 0x56, 0x78, 0x9A, 0xBC] @ 0x01 # 0x00 # replicate 142 0x00"]
  by auto

lemma decodeNibbles_Nil: "decodeNibbles [] = []"
  by (simp add: decodeNibbles_map)

lemma decodeNibbles_single: "decodeNibbles [x] = []"
  by (simp add: decodeNibbles_map)

lemma decodeNibbles_Cons2:
  "decodeNibbles (hi # lo # rest) = js_or (js_shl hi 4) lo # decodeNibbles rest"
proof -
  have upt0: "[0..<Suc m] = 0 # map Suc [0..<m]" for m
    by (simp add: upt_conv_Cons map_Suc_upt del: upt_Suc)
  show ?thesis
    by (simp add: decodeNibbles_map upt0 o_def del: upt_Suc)
qed

lemmas decodeNibbles_eval = decodeNibbles_Nil decodeNibbles_single decodeNibbles_Cons2

lemma decodeNibbles_encode_mod:
  "decodeNibbles (concat (map (\<lambda>byte. [js_and (js_sar byte 4) 0x0F, js_and byte 0x0F]) bs))
     = map (\<lambda>b. b mod 256) bs"
  by (induction bs) (simp_all add: decodeNibbles_eval nibble_roundtrip_mod)

lemma length_encode:
  "length (concat (map (\<lambda>byte. [f byte, g byte]) bs)) = 2 * length bs"
  by (induction bs) simp_all

lemma buildPatchDump_shape:
  assumes "length nm = 16"
  shows "buildPatchDump e pn (Some pb) nm =
     [0xf0, 0x00, 0x01, 0x0c, 0x01, 0x01] @ (if e then [0x01, 0x00] else [0x00, pn, 0x00])
       @ concat (map (\<lambda>byte. [js_and (js_sar byte 4) 0x0F, js_and byte 0x0F]) (pb @ map int nm))
       @ [0xf7]"
  using assms
  by (simp add: buildPatchDump_def SYSEX_START_def SYSEX_END_def LINE6_MANUFACTURER_ID_def
      POCKET_POD_DEVICE_ID_def js_slice_def Let_def)

section \<open>Trimming and the patch name\<close>

lemma rev_dropWhile_takeWhile:
  "rev (dropWhile P (rev xs)) @ rev (takeWhile P (rev xs)) = xs"
proof -
  have "rev (takeWhile P (rev xs) @ dropWhile P (rev xs)) = rev (rev xs)"
    by (simp only: takeWhile_dropWhile_id)
  then show ?thesis
    by (simp only: rev_append rev_rev_ident)
qed

lemma js_trim_decompose:
  "s = takeWhile isWhiteSpace s @ js_trim s
         @ rev (takeWhile isWhiteSpace (rev (dropWhile isWhiteSpace s)))"
proof -
  let ?t = "dropWhile isWhiteSpace s"
  have "js_trim s @ rev (takeWhile isWhiteSpace (rev ?t)) = ?t"
    unfolding js_trim_def js_trimEnd_def js_trimStart_def by (rule rev_dropWhile_takeWhile)
  moreover have "s = takeWhile isWhiteSpace s @ ?t" by simp
  ultimately show ?thesis by simp
qed

lemma js_trim_ends:
  assumes "js_trim s \<noteq> []"
  shows "\<not> isWhiteSpace (hd (js_trim s))" and "\<not> isWhiteSpace (last (js_trim s))"
proof -
  let ?t = "dropWhile isWhiteSpace s"
  let ?u = "dropWhile isWhiteSpace (rev ?t)"
  have tr: "js_trim s = rev ?u"
    by (simp add: js_trim_def js_trimEnd_def js_trimStart_def)
  with assms have u: "?u \<noteq> []" by simp
  then have "\<not> isWhiteSpace (hd ?u)" by (rule hd_dropWhile)
  with u show "\<not> isWhiteSpace (last (js_trim s))" by (simp add: tr last_rev)
  have "?t = js_trim s @ rev (takeWhile isWhiteSpace (rev ?t))"
    unfolding tr by (simp only: rev_dropWhile_takeWhile)
  with assms have "hd ?t = hd (js_trim s)" and "?t \<noteq> []"
    by (metis hd_append2, metis append_is_Nil_conv)
  then show "\<not> isWhiteSpace (hd (js_trim s))"
    using hd_dropWhile [of isWhiteSpace s] by simp
qed

lemma js_trimStart_id: "s = [] \<or> \<not> isWhiteSpace (hd s) \<Longrightarrow> js_trimStart s = s"
  by (cases s) (auto simp add: js_trimStart_def)

lemma js_trimEnd_id: "s = [] \<or> \<not> isWhiteSpace (last s) \<Longrightarrow> js_trimEnd s = s"
  by (cases s rule: rev_cases) (auto simp add: js_trimEnd_def)

lemma js_trim_id:
  assumes "s \<noteq> []" "\<not> isWhiteSpace (hd s)" "\<not> isWhiteSpace (last s)"
  shows "js_trim s = s"
  using assms by (simp add: js_trim_def js_trimStart_id js_trimEnd_id)

text \<open>
  The nibbles \<open>02 00 04 01\<close> decode to a space followed by \<open>A\<close>. \<^verbatim>\<open>trim\<close> removes
  the leading space, which trimming at the end only would keep.
\<close>

theorem decodePatchName_trims_both_ends_counterexample:
  "decodePatchName [0x02, 0x00, 0x04, 0x01] = js_string ''A''
   \<and> decodePatchName_spec [0x02, 0x00, 0x04, 0x01] = js_string '' A''
   \<and> decodePatchName [0x02, 0x00, 0x04, 0x01] \<noteq> decodePatchName_spec [0x02, 0x00, 0x04, 0x01]"
  by (simp add: decodePatchName_def decodePatchName_spec_def decodeNibbles_eval js_or_def
      js_shl_def toInt32_def fromCharCode_def js_trim_def js_trimStart_def js_trimEnd_def
      isWhiteSpace_def js_string_def)

text \<open>
  C3 (as amended). \<^verbatim>\<open>decodePatchName\<close> decodes the nibbles, reads each byte as a
  character code and removes white space from both ends: the decoded string is the
  result between a prefix and a suffix of white space only, a non-empty result neither
  begins nor ends with white space, and what lies between is unchanged. When the decoded
  string does not begin with white space, this is the removal of trailing white space
  only.
\<close>

theorem decodePatchName_trim:
  "(\<exists>pre suf. map fromCharCode (decodeNibbles nibbles) = pre @ decodePatchName nibbles @ suf
       \<and> (\<forall>c \<in> set pre. isWhiteSpace c) \<and> (\<forall>c \<in> set suf. isWhiteSpace c))
   \<and> (decodePatchName nibbles \<noteq> [] \<longrightarrow>
        \<not> isWhiteSpace (hd (decodePatchName nibbles))
        \<and> \<not> isWhiteSpace (last (decodePatchName nibbles)))
   \<and> (decodeNibbles nibbles = [] \<or> \<not> isWhiteSpace (fromCharCode (hd (decodeNibbles nibbles)))
        \<longrightarrow> decodePatchName nibbles = decodePatchName_spec nibbles)"
proof (intro conjI impI)
  let ?s = "map fromCharCode (decodeNibbles nibbles)"
  have name: "decodePatchName nibbles = js_trim ?s"
    by (simp add: decodePatchName_def)
  let ?pre = "takeWhile isWhiteSpace ?s"
  let ?suf = "rev (takeWhile isWhiteSpace (rev (dropWhile isWhiteSpace ?s)))"
  have "?s = ?pre @ decodePatchName nibbles @ ?suf"
    unfolding name by (rule js_trim_decompose)
  moreover have "\<forall>c \<in> set ?pre. isWhiteSpace c"
    by (auto dest: set_takeWhileD)
  moreover have "\<forall>c \<in> set ?suf. isWhiteSpace c"
    by (auto dest: set_takeWhileD)
  ultimately show "\<exists>pre suf. ?s = pre @ decodePatchName nibbles @ suf
       \<and> (\<forall>c \<in> set pre. isWhiteSpace c) \<and> (\<forall>c \<in> set suf. isWhiteSpace c)"
    by blast
  show "\<not> isWhiteSpace (hd (decodePatchName nibbles))" if "decodePatchName nibbles \<noteq> []"
    using that unfolding name by (rule js_trim_ends)
  show "\<not> isWhiteSpace (last (decodePatchName nibbles))" if "decodePatchName nibbles \<noteq> []"
    using that unfolding name by (rule js_trim_ends)
  show "decodePatchName nibbles = decodePatchName_spec nibbles"
    if "decodeNibbles nibbles = [] \<or> \<not> isWhiteSpace (fromCharCode (hd (decodeNibbles nibbles)))"
  proof -
    from that have "?s = [] \<or> \<not> isWhiteSpace (hd ?s)"
      by (cases "decodeNibbles nibbles") auto
    then have "js_trimStart ?s = ?s" by (rule js_trimStart_id)
    then show ?thesis
      by (simp add: name js_trim_def decodePatchName_spec_def)
  qed
qed

theorem decodePatchName_trim_witness:
  "decodePatchName [0x04, 0x08, 0x02, 0x00, 0x06, 0x09, 0x02, 0x00] \<noteq> []
   \<and> \<not> isWhiteSpace (hd (decodePatchName [0x04, 0x08, 0x02, 0x00, 0x06, 0x09, 0x02, 0x00]))
   \<and> \<not> isWhiteSpace (last (decodePatchName [0x04, 0x08, 0x02, 0x00, 0x06, 0x09, 0x02, 0x00]))
   \<and> \<not> isWhiteSpace (fromCharCode (hd (decodeNibbles [0x04, 0x08, 0x02, 0x00, 0x06, 0x09, 0x02, 0x00])))
   \<and> decodePatchName [0x04, 0x08, 0x02, 0x00, 0x06, 0x09, 0x02, 0x00]
       = decodePatchName_spec [0x04, 0x08, 0x02, 0x00, 0x06, 0x09, 0x02, 0x00]"
proof -
  have ne: "decodePatchName [0x04, 0x08, 0x02, 0x00, 0x06, 0x09, 0x02, 0x00] = js_string ''H i''"
    by (simp add: decodePatchName_def decodeNibbles_eval js_or_def
      js_shl_def toInt32_def fromCharCode_def js_trim_def js_trimStart_def js_trimEnd_def
      isWhiteSpace_def js_string_def)
  have h: "\<not> isWhiteSpace (fromCharCode (hd (decodeNibbles [0x04, 0x08, 0x02, 0x00, 0x06, 0x09, 0x02, 0x00])))"
    by (simp add: decodeNibbles_eval js_or_def js_shl_def toInt32_def fromCharCode_def
      isWhiteSpace_def)
  from ne have "decodePatchName [0x04, 0x08, 0x02, 0x00, 0x06, 0x09, 0x02, 0x00] \<noteq> []"
    by (simp add: js_string_def)
  with h decodePatchName_trim [of "[0x04, 0x08, 0x02, 0x00, 0x06, 0x09, 0x02, 0x00]"]
  show ?thesis by blast
qed

section \<open>Parsing a built patch dump\<close>

lemma fromCharCode_byte: "fromCharCode (int c mod 256) = c mod 256"
proof -
  have "int c mod 256 mod 65536 = int c mod 256"
    by (rule mod_pos_pos_trivial) simp_all
  then show ?thesis
    by (simp add: fromCharCode_def nat_mod_distrib)
qed

lemma parse_build:
  assumes nm: "length nm = 16" and pb: "length pb = 55"
  shows "parsePatchDump (buildPatchDump e pn (Some pb) nm) =
     Some \<lparr>name = js_trim (map (\<lambda>c. c mod 256) nm),
           params = assignParams PATCH_PARAM_MAP
                      (map (\<lambda>b. b mod 256) pb @ map (\<lambda>c. int c mod 256) nm) Map.empty,
           presetNumber = (if e then Null else Num pn),
           isEditBuffer = e\<rparr>"
proof -
  let ?enc = "concat (map (\<lambda>byte. [js_and (js_sar byte 4) 0x0F, js_and byte 0x0F]) (pb @ map int nm))"
  let ?meta = "if e then [0x01, 0x00] else [0x00, pn, 0x00]"
  let ?d = "buildPatchDump e pn (Some pb) nm"
  let ?dec = "map (\<lambda>b. b mod 256) pb @ map (\<lambda>c. int c mod 256) nm"
  have d: "?d = [0xf0, 0x00, 0x01, 0x0c, 0x01, 0x01] @ ?meta @ ?enc @ [0xf7]"
    using nm by (rule buildPatchDump_shape)
  have lenc: "length ?enc = 142"
    using nm pb by (simp only: length_encode) simp
  have six: "js_index ?d 6 = Num 1 \<longleftrightarrow> e"
    unfolding d by (simp add: js_index_def)
  have seven: "\<not> e \<Longrightarrow> js_index ?d 7 = Num pn"
    unfolding d by (simp add: js_index_def)
  have start: "nibbleStart ?d = (if e then 8 else 9)"
    by (simp add: nibbleStart_def six)
  have payload: "js_slice ?d (nibbleStart ?d) (nibbleStart ?d + 142) = ?enc"
    unfolding start unfolding d using lenc by (simp add: js_slice_def)
  have "decodeNibbles ?enc = map (\<lambda>b. b mod 256) (pb @ map int nm)"
    by (rule decodeNibbles_encode_mod)
  then have dec: "decodeNibbles ?enc = ?dec"
    by (simp add: o_def)
  have nameBytes: "js_slice ?dec 55 71 = map (\<lambda>c. int c mod 256) nm"
    using nm pb by (simp add: js_slice_def)
  have chars: "map fromCharCode (map (\<lambda>c. int c mod 256) nm) = map (\<lambda>c. c mod 256) nm"
    by (simp add: fromCharCode_byte)
  have long: "nibbleStart ?d + 142 \<le> length ?d"
    unfolding start unfolding d using lenc by simp
  show ?thesis
    unfolding parsePatchDump_Some [OF long] payload dec nameBytes chars
    using six seven by auto
qed

lemma parse_build_params:
  assumes "length pb = 55" "(off, key) \<in> set PATCH_PARAM_MAP"
  shows "assignParams PATCH_PARAM_MAP (map (\<lambda>b. b mod 256) pb @ rest) Map.empty key
         = Some (Num (pb ! off mod 256))"
proof -
  from assms(2) have "off < 55" by (rule PATCH_PARAM_MAP_offsets)
  with assms(1) have "js_index (map (\<lambda>b. b mod 256) pb @ rest) off = Num (pb ! off mod 256)"
    by (simp add: js_index_def nth_append)
  with assignParams_lookup [OF PATCH_PARAM_MAP_distinct_keys assms(2)] show ?thesis
    by simp
qed

text \<open>
  Two names of 16 characters that the parser does not give back: one that begins with a
  space, which \<^verbatim>\<open>trim\<close> removes, and one that ends with the character \<open>U+20AC\<close>,
  of which the nibble encoding keeps the low byte \<open>0xAC\<close> only.
\<close>

theorem parse_build_name_counterexample:
  "length (js_string '' My Cool Patch 1'') = 16
   \<and> map_option name (parsePatchDump
        (buildPatchDump True 0 (Some (replicate 55 0)) (js_string '' My Cool Patch 1'')))
     = Some (js_string ''My Cool Patch 1'')
   \<and> js_string ''My Cool Patch 1'' \<noteq> js_string '' My Cool Patch 1''
   \<and> length (js_string ''Price in Euros '' @ [0x20AC]) = 16
   \<and> map_option name (parsePatchDump
        (buildPatchDump True 0 (Some (replicate 55 0)) (js_string ''Price in Euros '' @ [0x20AC])))
     = Some (js_string ''Price in Euros '' @ [0xAC])"
proof -
  have a: "length (js_string '' My Cool Patch 1'') = 16" by (simp add: js_string_def)
  have b: "length (js_string ''Price in Euros '' @ [0x20AC]) = 16" by (simp add: js_string_def)
  have c: "length (replicate 55 (0::int)) = 55" by simp
  have "js_trim (map (\<lambda>c. c mod 256) (js_string '' My Cool Patch 1'')) = js_string ''My Cool Patch 1''"
    by (simp add: js_string_def js_trim_def js_trimStart_def js_trimEnd_def isWhiteSpace_def)
  moreover have "js_trim (map (\<lambda>c. c mod 256) (js_string ''Price in Euros '' @ [0x20AC]))
      = js_string ''Price in Euros '' @ [0xAC]"
    by (simp add: js_string_def js_trim_def js_trimStart_def js_trimEnd_def isWhiteSpace_def)
  moreover have "js_string ''My Cool Patch 1'' \<noteq> js_string '' My Cool Patch 1''"
    by (simp add: js_string_def)
  ultimately show ?thesis
    unfolding parse_build [OF a c] parse_build [OF b c] using a b by simp
qed

text \<open>
  C1 (as amended). For every name of 16 code units, each at most 255, and every array of
  55 bytes, parsing the frame that \<^verbatim>\<open>buildPatchDump\<close> builds gives back the data: an
  edit-buffer frame yields \<^verbatim>\<open>isEditBuffer = true\<close>, \<^verbatim>\<open>presetNumber = null\<close>, the name with
  the white space at both ends removed (the exact name when it neither begins nor ends
  with white space) and the original byte under every key of the offset table; a
  stored-preset frame with program number 42 yields \<^verbatim>\<open>presetNumber = 42\<close> and
  \<^verbatim>\<open>isEditBuffer = false\<close>, with the same name and parameters.
\<close>

theorem parse_build_roundtrip:
  assumes "length nm = 16" and "\<forall>c \<in> set nm. c \<le> 255"
    and "length pb = 55" and "\<forall>b \<in> set pb. 0 \<le> b \<and> b \<le> 255"
  shows "\<exists>r s. parsePatchDump (buildPatchDump True pn (Some pb) nm) = Some r
           \<and> isEditBuffer r \<and> presetNumber r = Null \<and> name r = js_trim nm
           \<and> (\<not> isWhiteSpace (hd nm) \<and> \<not> isWhiteSpace (last nm) \<longrightarrow> name r = nm)
           \<and> (\<forall>(off, key) \<in> set PATCH_PARAM_MAP. params r key = Some (Num (pb ! off)))
           \<and> parsePatchDump (buildPatchDump False 42 (Some pb) nm) = Some s
           \<and> \<not> isEditBuffer s \<and> presetNumber s = Num 42 \<and> name s = name r
           \<and> params s = params r"
proof -
  have nm: "map (\<lambda>c. c mod 256) nm = nm"
  proof (rule map_idI)
    fix c assume "c \<in> set nm"
    with assms(2) have "c < 256" by fastforce
    then show "c mod 256 = c" by simp
  qed
  have ne: "nm \<noteq> []" using assms(1) by auto
  have pbs: "(off, key) \<in> set PATCH_PARAM_MAP \<Longrightarrow> pb ! off mod 256 = pb ! off" for off key
  proof -
    assume "(off, key) \<in> set PATCH_PARAM_MAP"
    then have "off < 55" by (rule PATCH_PARAM_MAP_offsets)
    with assms(3) have "pb ! off \<in> set pb" by simp
    with assms(4) have "0 \<le> pb ! off" "pb ! off < 256" by fastforce+
    then show ?thesis by simp
  qed
  let ?ps = "assignParams PATCH_PARAM_MAP
               (map (\<lambda>b. b mod 256) pb @ map (\<lambda>c. int c mod 256) nm) Map.empty"
  have look: "\<forall>(off, key) \<in> set PATCH_PARAM_MAP. ?ps key = Some (Num (pb ! off))"
    using parse_build_params [OF assms(3)] pbs by auto
  have id: "\<not> isWhiteSpace (hd nm) \<and> \<not> isWhiteSpace (last nm) \<longrightarrow> js_trim nm = nm"
    using ne by (simp add: js_trim_id)
  show ?thesis
    unfolding parse_build [OF assms(1) assms(3)] nm
    using look id by simp
qed

theorem parse_build_roundtrip_witness:
  "length (js_string ''My Cool Patch   '') = 16
   \<and> list_all (\<lambda>c. c \<le> 255) (js_string ''My Cool Patch   '')
   \<and> length (map int [0 ..< 55]) = 55
   \<and> list_all (\<lambda>b. 0 \<le> b \<and> b \<le> 255) (map int [0 ..< 55])
   \<and> map_option name (parsePatchDump
        (buildPatchDump True 0 (Some (map int [0 ..< 55])) (js_string ''My Cool Patch   '')))
      = Some (js_string ''My Cool Patch'')
   \<and> map_option presetNumber (parsePatchDump
        (buildPatchDump True 0 (Some (map int [0 ..< 55])) (js_string ''My Cool Patch   '')))
      = Some Null
   \<and> params (the (parsePatchDump
        (buildPatchDump True 0 (Some (map int [0 ..< 55])) (js_string ''My Cool Patch   ''))))
        ''cabModel'' = Some (Num 44)
   \<and> map_option presetNumber (parsePatchDump
        (buildPatchDump False 42 (Some (map int [0 ..< 55])) (js_string ''My Cool Patch   '')))
      = Some (Num 42)"
proof -
  have a: "length (js_string ''My Cool Patch   '') = 16" by (simp add: js_string_def)
  have b: "\<forall>c \<in> set (js_string ''My Cool Patch   ''). c \<le> 255" by (simp add: js_string_def)
  have c: "length (map int [0 ..< 55]) = 55" by simp
  have d: "\<forall>b \<in> set (map int [0 ..< 55]). 0 \<le> b \<and> b \<le> 255" by auto
  have t: "js_trim (js_string ''My Cool Patch   '') = js_string ''My Cool Patch''"
    by (simp add: js_string_def js_trim_def js_trimStart_def js_trimEnd_def isWhiteSpace_def)
  have k: "(44, ''cabModel'') \<in> set PATCH_PARAM_MAP" by (simp add: PATCH_PARAM_MAP_def)
  have n: "map int [0 ..< 55] ! 44 = 44" by (simp del: upt_Suc)
  from parse_build_roundtrip [OF a b c d, of 0] obtain r s where
    r: "parsePatchDump (buildPatchDump True 0 (Some (map int [0 ..< 55]))
          (js_string ''My Cool Patch   '')) = Some r"
      "presetNumber r = Null" "name r = js_trim (js_string ''My Cool Patch   '')"
      "\<forall>(off, key) \<in> set PATCH_PARAM_MAP. params r key = Some (Num (map int [0 ..< 55] ! off))"
    and s: "parsePatchDump (buildPatchDump False 42 (Some (map int [0 ..< 55]))
          (js_string ''My Cool Patch   '')) = Some s" "presetNumber s = Num 42"
    by blast
  from r(4) k have "params r ''cabModel'' = Some (Num (map int [0 ..< 55] ! 44))" by blast
  with n have "params r ''cabModel'' = Some (Num 44)" by simp
  with r s t a b c d show ?thesis
    by (simp add: list_all_iff del: upt_Suc)
qed

section \<open>The range of the parsed parameters\<close>

text \<open>
  A well-formed edit-buffer frame whose payload nibbles are all \<open>0x0F\<close>: every decoded
  byte is 255, and so is every parsed parameter.
\<close>

theorem parsePatchDump_params_range_counterexample:
  "parsePatchDump ([0xF0, 0x00, 0x01, 0x0C, 0x01, 0x01, 0x01, 0x00] @ replicate 142 0x0F @ [0xF7])
     \<noteq> None
   \<and> params (the (parsePatchDump
        ([0xF0, 0x00, 0x01, 0x0C, 0x01, 0x01, 0x01, 0x00] @ replicate 142 0x0F @ [0xF7])))
       ''drive'' = Some (Num 255)
   \<and> \<not> (255 \<le> (127 :: int))"
proof -
  let ?d = "[0xF0, 0x00, 0x01, 0x0C, 0x01, 0x01, 0x01, 0x00] @ replicate 142 0x0F @ [0xF7 :: int]"
  have start: "nibbleStart ?d = 8" by (simp add: nibbleStart_def js_index_def)
  then have long: "nibbleStart ?d + 142 \<le> length ?d" by simp
  have k: "(9, ''drive'') \<in> set PATCH_PARAM_MAP" by (simp add: PATCH_PARAM_MAP_def)
  have "js_index (decodeNibbles (js_slice ?d (nibbleStart ?d) (nibbleStart ?d + 142))) 9
        = Num (js_or (js_shl (?d ! (nibbleStart ?d + 2 * 9)) 4) (?d ! (nibbleStart ?d + 2 * 9 + 1)))"
    using long by (rule decoded_payload_nth) simp
  also have "\<dots> = Num 255"
    unfolding start by (simp add: nth_append js_or_def js_shl_def toInt32_def)
  finally have v: "js_index (decodeNibbles (js_slice ?d (nibbleStart ?d) (nibbleStart ?d + 142))) 9
        = Num 255" .
  have "params (the (parsePatchDump ?d)) ''drive'' = Some (Num 255)"
    unfolding parsePatchDump_Some [OF long]
    using assignParams_lookup [OF PATCH_PARAM_MAP_distinct_keys k] v by simp
  moreover have "parsePatchDump ?d \<noteq> None"
    unfolding parsePatchDump_Some [OF long] by simp
  ultimately show ?thesis by simp
qed

text \<open>
  C8 (as amended). Whenever \<^verbatim>\<open>parsePatchDump\<close> succeeds, its parameters mapping
  contains exactly one entry for every entry of the byte-offset table, 42 in all, each
  the decoded byte \<^verbatim>\<open>(hi << 4) | lo\<close> at its offset. That value is not validated: it lies
  within 0 to 255 when both nibbles lie within 0 to 15, and within 0 to 127 when moreover
  the high nibble is at most 7.
\<close>

theorem parsePatchDump_params:
  assumes "parsePatchDump data = Some r"
  shows "dom (params r) = snd ` set PATCH_PARAM_MAP
    \<and> card (dom (params r)) = length PATCH_PARAM_MAP
    \<and> (\<forall>(off, key) \<in> set PATCH_PARAM_MAP.
         let hi = data ! (nibbleStart data + 2 * off);
             lo = data ! (nibbleStart data + 2 * off + 1);
             v = js_or (js_shl hi 4) lo
         in params r key = Some (Num v)
            \<and> (0 \<le> hi \<and> hi \<le> 15 \<and> 0 \<le> lo \<and> lo \<le> 15 \<longrightarrow> 0 \<le> v \<and> v \<le> 255)
            \<and> (0 \<le> hi \<and> hi \<le> 7 \<and> 0 \<le> lo \<and> lo \<le> 15 \<longrightarrow> 0 \<le> v \<and> v \<le> 127))"
proof -
  from assms have "parsePatchDump data \<noteq> None" by simp
  then have long: "nibbleStart data + 142 \<le> length data"
    by (simp add: parsePatchDump_None_iff)
  let ?dec = "decodeNibbles (js_slice data (nibbleStart data) (nibbleStart data + 142))"
  from assms have ps: "params r = assignParams PATCH_PARAM_MAP ?dec Map.empty"
    unfolding parsePatchDump_Some [OF long] by auto
  have dom: "dom (params r) = snd ` set PATCH_PARAM_MAP"
    by (simp add: ps dom_assignParams)
  have "card (set (map snd PATCH_PARAM_MAP)) = length (map snd PATCH_PARAM_MAP)"
    using PATCH_PARAM_MAP_distinct_keys by (rule distinct_card)
  then have card: "card (dom (params r)) = length PATCH_PARAM_MAP"
    by (simp add: dom)
  have each: "params r key = Some (Num (js_or (js_shl (data ! (nibbleStart data + 2 * off)) 4)
                  (data ! (nibbleStart data + 2 * off + 1))))"
    if "(off, key) \<in> set PATCH_PARAM_MAP" for off key
  proof -
    from that have "off < 55" by (rule PATCH_PARAM_MAP_offsets)
    then have "off < 71" by simp
    with long have "js_index ?dec off = Num (js_or (js_shl (data ! (nibbleStart data + 2 * off)) 4)
                  (data ! (nibbleStart data + 2 * off + 1)))"
      by (rule decoded_payload_nth)
    with assignParams_lookup [OF PATCH_PARAM_MAP_distinct_keys that] show ?thesis
      by (simp add: ps)
  qed
  have range: "0 \<le> js_or (js_shl hi 4) lo \<and> js_or (js_shl hi 4) lo \<le> 16 * m + 15"
    if "0 \<le> hi" "hi \<le> m" "m \<le> 15" "0 \<le> lo" "lo \<le> 15" for hi lo m :: int
  proof -
    have "js_or (js_shl hi 4) lo = hi * 16 + lo"
      using that by (intro js_or_shl_nibbles) auto
    with that show ?thesis by auto
  qed
  show ?thesis
    using dom card each range [of _ 15] range [of _ 7] by (auto simp add: Let_def)
qed

theorem parsePatchDump_params_witness:
  "parsePatchDump ([0xF0, 0x00, 0x01, 0x0C, 0x01, 0x01, 0x01, 0x00] @ replicate 142 0x05 @ [0xF7])
     \<noteq> None
   \<and> card (dom (params (the (parsePatchDump
        ([0xF0, 0x00, 0x01, 0x0C, 0x01, 0x01, 0x01, 0x00] @ replicate 142 0x05 @ [0xF7]))))) = 42
   \<and> params (the (parsePatchDump
        ([0xF0, 0x00, 0x01, 0x0C, 0x01, 0x01, 0x01, 0x00] @ replicate 142 0x05 @ [0xF7])))
       ''drive'' = Some (Num 0x55)"
proof -
  let ?d = "[0xF0, 0x00, 0x01, 0x0C, 0x01, 0x01, 0x01, 0x00] @ replicate 142 0x05 @ [0xF7 :: int]"
  have start: "nibbleStart ?d = 8" by (simp add: nibbleStart_def js_index_def)
  then have "\<not> length ?d < nibbleStart ?d + 142" by simp
  with parsePatchDump_None_iff [of ?d] have ne: "parsePatchDump ?d \<noteq> None" by blast
  then have some: "parsePatchDump ?d = Some (the (parsePatchDump ?d))" by simp
  have k: "(9, ''drive'') \<in> set PATCH_PARAM_MAP" by (simp add: PATCH_PARAM_MAP_def)
  note w = parsePatchDump_params [OF some]
  from w [THEN conjunct2, THEN conjunct1]
  have "card (dom (params (the (parsePatchDump ?d)))) = 42"
    by (simp only: length_PATCH_PARAM_MAP)
  moreover from bspec [OF w [THEN conjunct2, THEN conjunct2] k]
  have "params (the (parsePatchDump ?d)) ''drive''
      = Some (Num (js_or (js_shl (?d ! (nibbleStart ?d + 2 * 9)) 4) (?d ! (nibbleStart ?d + 2 * 9 + 1))))"
    by (simp add: Let_def)
  then have "params (the (parsePatchDump ?d)) ''drive'' = Some (Num 0x55)"
    unfolding start by (simp add: nth_append js_or_def js_shl_def toInt32_def)
  ultimately show ?thesis using ne by simp
qed

section \<open>The static CC registry\<close>

lemma MIDI_CC_MAP_distinct_cc: "distinct (map (\<lambda>e. cc (snd e)) MIDI_CC_MAP)"
  by (simp add: MIDI_CC_MAP_def)

text \<open>
  C9. No two entries of \<^verbatim>\<open>MIDI_CC_MAP\<close> share a controller number: the \<^verbatim>\<open>cc\<close> fields
  of the descriptors at two different positions of the table differ.
\<close>

theorem MIDI_CC_MAP_unique_cc:
  "\<forall>i < length MIDI_CC_MAP. \<forall>j < length MIDI_CC_MAP.
     i \<noteq> j \<longrightarrow> cc (snd (MIDI_CC_MAP ! i)) \<noteq> cc (snd (MIDI_CC_MAP ! j))"
proof (intro allI impI)
  fix i j
  assume "i < length MIDI_CC_MAP" "j < length MIDI_CC_MAP" "i \<noteq> j"
  then have ij: "i < length (map (\<lambda>e. cc (snd e)) MIDI_CC_MAP)"
    "j < length (map (\<lambda>e. cc (snd e)) MIDI_CC_MAP)" by simp_all
  have "(map (\<lambda>e. cc (snd e)) MIDI_CC_MAP ! i = map (\<lambda>e. cc (snd e)) MIDI_CC_MAP ! j) = (i = j)"
    using MIDI_CC_MAP_distinct_cc ij by (rule nth_eq_iff_index_eq)
  with \<open>i < length MIDI_CC_MAP\<close> \<open>j < length MIDI_CC_MAP\<close> \<open>i \<noteq> j\<close>
  show "cc (snd (MIDI_CC_MAP ! i)) \<noteq> cc (snd (MIDI_CC_MAP ! j))"
    by simp
qed

theorem MIDI_CC_MAP_unique_cc_witness:
  "16 < length MIDI_CC_MAP \<and> 17 < length MIDI_CC_MAP \<and> (16 :: nat) \<noteq> 17
   \<and> cc (snd (MIDI_CC_MAP ! 16)) \<noteq> cc (snd (MIDI_CC_MAP ! 17))"
proof -
  have "16 < length MIDI_CC_MAP" "17 < length MIDI_CC_MAP" "(16 :: nat) \<noteq> 17"
    by (simp_all add: MIDI_CC_MAP_def)
  with MIDI_CC_MAP_unique_cc [rule_format, of 16 17] show ?thesis by blast
qed

section \<open>Control Change messages\<close>

lemma ccLoop_find:
  "ccLoop es c val ps =
     (case find (\<lambda>(key, d). Num (cc d) = c) es of
        None \<Rightarrow> ps
      | Some (key, d) \<Rightarrow>
          ps(key \<mapsto> (if max_cc d = 1 then (if js_ge val 64 then Num 1 else Num 0) else val)))"
  by (induction es) (auto simp add: fun_upd_def)

lemma find_entry:
  assumes "distinct (map (\<lambda>e. cc (snd e)) es)" "(key, d) \<in> set es"
  shows "find (\<lambda>(key, d'). Num (cc d') = Num (cc d)) es = Some (key, d)"
  using assms
proof (induction es)
  case Nil
  then show ?case by simp
next
  case (Cons e es)
  obtain k' d' where e: "e = (k', d')" by (cases e)
  show ?case
  proof (cases "(key, d) = e")
    case True
    then show ?thesis by auto
  next
    case False
    with Cons.prems have in_rest: "(key, d) \<in> set es" by simp
    then have "cc d \<in> set (map (\<lambda>e. cc (snd e)) es)" by force
    moreover from Cons.prems(1) e have "cc d' \<notin> set (map (\<lambda>e. cc (snd e)) es)" by simp
    ultimately have "cc d' \<noteq> cc d" by metis
    moreover from Cons.prems(1) have "distinct (map (\<lambda>e. cc (snd e)) es)" by simp
    then have "find (\<lambda>(key, d'). Num (cc d') = Num (cc d)) es = Some (key, d)"
      using in_rest by (rule Cons.IH)
    ultimately show ?thesis by (simp add: e)
  qed
qed

lemma js_and_toInt32: "js_and (toInt32 a) b = js_and a b"
  by (simp add: js_and_def toInt32_def)

lemma status_not_sysex: "js_and st 0xf0 = 0xb0 \<Longrightarrow> st \<noteq> SYSEX_START"
  by (auto simp add: SYSEX_START_def js_and_def toInt32_def)

lemma handleMidiMessage_cc:
  assumes "js_and st 0xf0 = 0xb0"
  shows "handleMidiMessage (st # c # v # rest) ps = ccLoop MIDI_CC_MAP (Num c) (Num v) ps"
  using assms status_not_sysex [OF assms]
  by (simp add: handleMidiMessage_def js_index_def js_and_toInt32)

text \<open>
  C5. For every Control Change message whose controller number is that of a descriptor
  of \<^verbatim>\<open>MIDI_CC_MAP\<close>: when the descriptor has \<^verbatim>\<open>max\<close> 1, the value stored under its key
  is 1 for an incoming value of at least 64 and 0 below 64; for every other descriptor
  the incoming value is stored unchanged.
\<close>

theorem handleMidiMessage_toggle:
  assumes "(key, d) \<in> set MIDI_CC_MAP" and "js_and st 0xf0 = 0xb0"
  shows "handleMidiMessage [st, cc d, v] ps =
           ps(key \<mapsto> Num (if max_cc d = 1 then (if v \<ge> 64 then 1 else 0) else v))"
proof -
  have "find (\<lambda>(key, d'). Num (cc d') = Num (cc d)) MIDI_CC_MAP = Some (key, d)"
    using MIDI_CC_MAP_distinct_cc assms(1) by (rule find_entry)
  then show ?thesis
    by (simp add: handleMidiMessage_cc [OF assms(2)] ccLoop_find)
qed

theorem handleMidiMessage_toggle_witness:
  "handleMidiMessage [0xB0, 25, 127] Map.empty ''dist_enable'' = Some (Num 1)
   \<and> handleMidiMessage [0xB0, 25, 0] Map.empty ''dist_enable'' = Some (Num 0)
   \<and> handleMidiMessage [0xB0, 25, 63] Map.empty ''dist_enable'' = Some (Num 0)
   \<and> handleMidiMessage [0xB0, 25, 64] Map.empty ''dist_enable'' = Some (Num 1)
   \<and> handleMidiMessage [0xB0, 13, 100] Map.empty ''drive'' = Some (Num 100)"
proof -
  have t: "(''dist_enable'', \<lparr>cc = 25, name_cc = ''Dist Enable'', min_cc = 0, max_cc = 1\<rparr>)
      \<in> set MIDI_CC_MAP"
    by (simp add: MIDI_CC_MAP_def)
  have k: "(''drive'', \<lparr>cc = 13, name_cc = ''Drive'', min_cc = 0, max_cc = 127\<rparr>)
      \<in> set MIDI_CC_MAP"
    by (simp add: MIDI_CC_MAP_def)
  have s: "js_and 0xB0 0xf0 = 0xb0"
    by (simp add: js_and_def toInt32_def)
  show ?thesis
    using handleMidiMessage_toggle [OF t s, of 127 Map.empty]
      handleMidiMessage_toggle [OF t s, of 0 Map.empty]
      handleMidiMessage_toggle [OF t s, of 63 Map.empty]
      handleMidiMessage_toggle [OF t s, of 64 Map.empty]
      handleMidiMessage_toggle [OF k s, of 100 Map.empty]
    by simp
qed

text \<open>
  C6. The CC interpreter should first resolve the controller numbers that belong to the
  selected effect category, so that under the rotary category (effect type 2) an incoming
  controller 55 is \<^verbatim>\<open>effect_speed\<close>, as the resolver has it and as the test suite states
  of the reverse table. The handler does not: with effect type 2 selected, the message
  \<open>B0 37 64\<close> (controller 55, value 100) changes nothing, since no descriptor of
  \<^verbatim>\<open>MIDI_CC_MAP\<close> has controller number 55, and \<^verbatim>\<open>effect_speed\<close> is not set.
\<close>

theorem handleMidiMessage_rotary_cc55:
  "getEffectCC [] ''effect_speed'' 2 = Some 55
   \<and> handleMidiMessage [0xB0, 55, 100] [''effect'' \<mapsto> Num 2] = [''effect'' \<mapsto> Num 2]
   \<and> handleMidiMessage [0xB0, 55, 100] [''effect'' \<mapsto> Num 2] ''effect_speed'' = None
   \<and> handleMidiMessage [0xB0, 55, 100] [''effect'' \<mapsto> Num 2] ''effect_speed'' \<noteq> Some (Num 100)"
proof -
  have s: "js_and 0xB0 0xf0 = 0xb0"
    by (simp add: js_and_def toInt32_def)
  have "handleMidiMessage [0xB0, 55, 100] [''effect'' \<mapsto> Num 2] = [''effect'' \<mapsto> Num 2]"
    unfolding handleMidiMessage_cc [OF s] by (simp add: MIDI_CC_MAP_def)
  moreover have "getEffectCC [] ''effect_speed'' 2 = Some 55"
    by (simp add: getEffectCC_def EFFECT_CATEGORIES_def)
  ultimately show ?thesis by simp
qed

section \<open>The effect category resolver\<close>

text \<open>
  C7. \<^verbatim>\<open>getEffectCC\<close> resolves the category of the effect-type index and returns the
  controller number that the table of the category gives for the logical parameter, and
  \<^verbatim>\<open>null\<close> when the table has none or the category is bypass or delay-only; in
  particular it is 55 for \<^verbatim>\<open>effect_speed\<close> at index 2 and \<^verbatim>\<open>null\<close> for
  \<^verbatim>\<open>effect_depth\<close> at index 7 and for \<^verbatim>\<open>effect_speed\<close> at index 10.
\<close>

theorem getEffectCC_values:
  "(EFFECT_CATEGORIES i = Some category \<longrightarrow>
      getEffectCC fl p i = map_of (EFFECT_CC_TABLE fl category) p)
   \<and> (EFFECT_CATEGORIES i = Some Bypass \<or> EFFECT_CATEGORIES i = Some Delay_only \<longrightarrow>
      getEffectCC fl p i = None)
   \<and> getEffectCC fl ''effect_speed'' 2 = Some 55
   \<and> getEffectCC fl ''effect_depth'' 7 = None
   \<and> getEffectCC fl ''effect_speed'' 10 = None
   \<and> getEffectCC fl ''effect_speed'' 0 = Some 51
   \<and> getEffectCC fl ''effect_depth'' 2 = Some 56
   \<and> getEffectCC fl ''effect_speed'' 5 = Some 58
   \<and> getEffectCC fl ''effect_depth'' 5 = Some 59
   \<and> getEffectCC fl ''effect_speed'' 7 = Some 42
   \<and> getEffectCC fl ''effect_speed'' 14 = Some 49"
  by (auto simp add: getEffectCC_def EFFECT_CATEGORIES_def)

theorem getEffectCC_values_witness:
  "EFFECT_CATEGORIES 10 = Some Bypass \<and> getEffectCC [] ''effect_feedback'' 10 = None
   \<and> EFFECT_CATEGORIES 12 = Some Chorus \<and> getEffectCC [] ''effect_feedback'' 12 = Some 53"
proof -
  have b: "EFFECT_CATEGORIES 10 = Some Bypass" and c: "EFFECT_CATEGORIES 12 = Some Chorus"
    by (simp_all add: EFFECT_CATEGORIES_def)
  from getEffectCC_values [of 10 Bypass "[]" "''effect_feedback''"]
    getEffectCC_values [of 12 Chorus "[]" "''effect_feedback''"] b c
  show ?thesis by simp
qed

end
